theory Spec2Isabelle
  imports Main "HOL-Library.Char_ord" "HOL-Library.List_Lexorder" "HOL-Library.Sublist"
begin

section \<open>Rule aggregation and deduplication (pkg/rules/rules.go)\<close>

text \<open>
  A shallow embedding of \<^verbatim>\<open>pkg/rules/rules.go\<close>: the unary client \<^verbatim>\<open>GRPCClient.Rules\<close>,
  its sink \<^verbatim>\<open>rulesServer\<close>, and the three passes \<^verbatim>\<open>filterRules\<close>, \<^verbatim>\<open>dedupGroups\<close> and
  \<^verbatim>\<open>dedupRules\<close>.

  Go pointers are modelled by values: every \<^verbatim>\<open>*rulespb.Rule\<close> and \<^verbatim>\<open>*rulespb.RuleGroup\<close> of a
  slice is taken to be an object of its own (the messages of a stream are decoded one by
  one), so that a mutation through a pointer is an update of the element that holds it.
  Strings are compared bytewise, as Go compares them: \<open>char\<close> is ordered by its code and
  lists lexicographically.
\<close>

subsection \<open>Data model\<close>

text \<open>\<^verbatim>\<open>labels.Label\<close> and \<^verbatim>\<open>labels.Labels\<close> of the Prometheus library.\<close>

datatype label = Label (Name: string) (Value: string)

type_synonym labels = "label list"

text \<open>
  Modelled from the spec: the package \<^verbatim>\<open>rulespb\<close> (the type \<^verbatim>\<open>Rule\<close>, its getters
  \<^verbatim>\<open>GetRecording\<close>, \<^verbatim>\<open>GetAlert\<close>, \<^verbatim>\<open>GetLabels\<close> and its setter \<^verbatim>\<open>SetLabels\<close>) is not among the
  sources. The spec's data model says: a rule is polymorphic over the variants Recording
  and Alerting, and both carry labels. A rule is a oneof, so a third value stands for the
  rule whose result is not set (both getters return nil). What a variant carries besides
  its labels (name, query, health, ...) is the type parameter \<open>'r\<close>, respectively \<open>'a\<close>.
\<close>

datatype ('r, 'a) rule =
    Recording labels 'r
  | Alert labels 'a
  | NoResult

fun GetRecording :: "('r, 'a) rule \<Rightarrow> (labels \<times> 'r) option" where
  "GetRecording (Recording ls p) = Some (ls, p)"
| "GetRecording (Alert ls p) = None"
| "GetRecording NoResult = None"

fun GetAlert :: "('r, 'a) rule \<Rightarrow> (labels \<times> 'a) option" where
  "GetAlert (Recording ls p) = None"
| "GetAlert (Alert ls p) = Some (ls, p)"
| "GetAlert NoResult = None"

fun GetLabels :: "('r, 'a) rule \<Rightarrow> labels" where
  "GetLabels (Recording ls p) = ls"
| "GetLabels (Alert ls p) = ls"
| "GetLabels NoResult = []"

fun SetLabels :: "('r, 'a) rule \<Rightarrow> labels \<Rightarrow> ('r, 'a) rule" where
  "SetLabels (Recording ls p) ls' = Recording ls' p"
| "SetLabels (Alert ls p) ls' = Alert ls' p"
| "SetLabels NoResult ls' = NoResult"

text \<open>
  \<^verbatim>\<open>rulespb.RuleGroup\<close>: the functions below read and write the name and the rules only;
  the other fields of the message are the record's extension.
\<close>

record ('r, 'a) RuleGroup =
  GName :: string
  Rules :: "('r, 'a) rule list"

subsection \<open>dedupRules\<close>

text \<open>
  \<^verbatim>\<open>removeReplicaLabels\<close>: the labels whose name is not a key of \<^verbatim>\<open>replicaLabels\<close>
  (a \<^verbatim>\<open>map[string]struct{}\<close>, here a set of names) are collected in order and set.
\<close>

definition removeReplicaLabels :: "('r, 'a) rule \<Rightarrow> string set \<Rightarrow> ('r, 'a) rule" where
  "removeReplicaLabels r replicaLabels =
     SetLabels r (filter (\<lambda>l. Name l \<notin> replicaLabels) (GetLabels r))"

text \<open>
  The first loop of \<^verbatim>\<open>dedupRules\<close>, for one rule: the replica labels are removed, then
  \<^verbatim>\<open>sort.Slice\<close> orders the labels by name, in place. \<^verbatim>\<open>sort.Slice\<close> is not stable; the
  model sorts by insertion, which is what it computes when the names of a rule's labels
  are distinct (the data model's invariant).
\<close>

definition normalizeRule :: "('r, 'a) rule \<Rightarrow> string set \<Rightarrow> ('r, 'a) rule" where
  "normalizeRule r replicaLabels =
     (let r' = removeReplicaLabels r replicaLabels
      in SetLabels r' (sort_key Name (GetLabels r')))"

text \<open>
  The second loop of \<^verbatim>\<open>dedupRules\<close>. \<open>String\<close> is \<^verbatim>\<open>Rule.String\<close>, \<open>cmpR\<close> is
  \<^verbatim>\<open>RecordingRule.Compare\<close> and \<open>cmpA\<close> is \<^verbatim>\<open>Alert.Compare\<close>: all three are declared in
  \<^verbatim>\<open>rulespb\<close> and taken as parameters. \<open>seenRules\<close> is the Go map, \<open>uniqueRules\<close> the
  slice the loop appends to. A comparison is made only when both getters return a
  variant (neither is nil). Each \<^verbatim>\<open>continue\<close>, with the append before it, is a recursive
  call of its own; the last call of the branch is the fall through to the append that
  ends the loop body.
\<close>

fun dedupRules_loop ::
  "(('r, 'a) rule \<Rightarrow> string) \<Rightarrow> (labels \<times> 'r \<Rightarrow> labels \<times> 'r \<Rightarrow> int) \<Rightarrow>
   (labels \<times> 'a \<Rightarrow> labels \<times> 'a \<Rightarrow> int) \<Rightarrow>
   (string \<rightharpoonup> ('r, 'a) rule) \<Rightarrow> ('r, 'a) rule list \<Rightarrow> ('r, 'a) rule list \<Rightarrow>
   ('r, 'a) rule list" where
  "dedupRules_loop String cmpR cmpA seenRules uniqueRules [] = uniqueRules"
| "dedupRules_loop String cmpR cmpA seenRules uniqueRules (r # rules) =
     (case seenRules (String r) of
        Some existingRule \<Rightarrow>
          (let existingRecording = GetRecording existingRule;
               existingAlert = GetAlert existingRule;
               currentRecording = GetRecording r;
               currentAlert = GetAlert r
           in if (case (existingRecording, currentRecording) of
                    (Some e, Some c) \<Rightarrow> cmpR e c \<noteq> 0
                  | _ \<Rightarrow> False)
              then dedupRules_loop String cmpR cmpA seenRules (uniqueRules @ [r]) rules
              else if (case (existingAlert, currentAlert) of
                         (Some e, Some c) \<Rightarrow> cmpA e c \<noteq> 0
                       | _ \<Rightarrow> False)
              then dedupRules_loop String cmpR cmpA seenRules (uniqueRules @ [r]) rules
              else dedupRules_loop String cmpR cmpA (seenRules(String r \<mapsto> r))
                     (uniqueRules @ [r]) rules)
      | None \<Rightarrow>
          dedupRules_loop String cmpR cmpA (seenRules(String r \<mapsto> r))
            (uniqueRules @ [r]) rules)"

definition dedupRules ::
  "(('r, 'a) rule \<Rightarrow> string) \<Rightarrow> (labels \<times> 'r \<Rightarrow> labels \<times> 'r \<Rightarrow> int) \<Rightarrow>
   (labels \<times> 'a \<Rightarrow> labels \<times> 'a \<Rightarrow> int) \<Rightarrow>
   ('r, 'a) rule list \<Rightarrow> string set \<Rightarrow> ('r, 'a) rule list" where
  "dedupRules String cmpR cmpA rules replicaLabels =
     (if length rules = 0 then rules
      else dedupRules_loop String cmpR cmpA Map.empty []
             (map (\<lambda>r. normalizeRule r replicaLabels) rules))"

subsection \<open>matches and filterRules\<close>

text \<open>
  \<^verbatim>\<open>labels.Matcher\<close> of the Prometheus library, with its four match types. The regular
  expression engine is the parameter \<open>re\<close>: \<open>re p s\<close> says that the (anchored) pattern
  \<open>p\<close> matches the string \<open>s\<close>.
\<close>

datatype MatchType = MatchEqual | MatchNotEqual | MatchRegexp | MatchNotRegexp

datatype Matcher = Matcher (MType: MatchType) (MName: string) (MValue: string)

fun Matches :: "(string \<Rightarrow> string \<Rightarrow> bool) \<Rightarrow> Matcher \<Rightarrow> string \<Rightarrow> bool" where
  "Matches re (Matcher MatchEqual n v) s = (s = v)"
| "Matches re (Matcher MatchNotEqual n v) s = (s \<noteq> v)"
| "Matches re (Matcher MatchRegexp n v) s = re v s"
| "Matches re (Matcher MatchNotRegexp n v) s = (\<not> re v s)"

text \<open>\<^verbatim>\<open>Labels.Get\<close>: the value of the first label of that name, the empty string if none.\<close>

fun Get :: "labels \<Rightarrow> string \<Rightarrow> string" where
  "Get [] name = []"
| "Get (l # ls) name = (if Name l = name then Value l else Get ls name)"

text \<open>
  The node types of \<^verbatim>\<open>text/template/parse\<close> that a template's root list can hold. The
  template parser is the parameter \<open>tparse\<close>: \<open>tparse v\<close> is \<open>None\<close> when
  \<^verbatim>\<open>labelTemplate.Parse(v)\<close> returns an error, and otherwise the types of the nodes of
  \<^verbatim>\<open>t.Root.Nodes\<close>, in order. The parse of a value is taken to depend on the value only,
  not on the values that the same template object has parsed before.
\<close>

datatype NodeType =
    NodeText | NodeAction | NodeIf | NodeRange | NodeWith | NodeTemplate
  | NodeComment | NodeBreak | NodeContinue

text \<open>The condition of line 124: no error, one node, and that node is a text node.\<close>

definition isNonTemplated :: "(string \<Rightarrow> NodeType list option) \<Rightarrow> label \<Rightarrow> bool" where
  "isNonTemplated tparse label =
     (case tparse (Value label) of
        None \<Rightarrow> False
      | Some nodes \<Rightarrow> length nodes = 1 \<and> nodes ! 0 = NodeText)"

text \<open>The first loop of \<^verbatim>\<open>matches\<close>: the labels that pass the condition, in order.\<close>

fun nonTemplatedLabels :: "(string \<Rightarrow> NodeType list option) \<Rightarrow> labels \<Rightarrow> labels" where
  "nonTemplatedLabels tparse [] = []"
| "nonTemplatedLabels tparse (label # l) =
     (if isNonTemplated tparse label
      then label # nonTemplatedLabels tparse l
      else nonTemplatedLabels tparse l)"

text \<open>
  The nested loops of \<^verbatim>\<open>matches\<close>: the first matcher that does not match the value
  returns false from the function; a set that is exhausted goes on to the next set.
\<close>

fun matches_matchers ::
  "(string \<Rightarrow> string \<Rightarrow> bool) \<Rightarrow> Matcher list \<Rightarrow> labels \<Rightarrow> bool" where
  "matches_matchers re [] nonTemplated = True"
| "matches_matchers re (m # matchers) nonTemplated =
     (if \<not> Matches re m (Get nonTemplated (MName m)) then False
      else matches_matchers re matchers nonTemplated)"

fun matches_sets ::
  "(string \<Rightarrow> string \<Rightarrow> bool) \<Rightarrow> Matcher list list \<Rightarrow> labels \<Rightarrow> bool" where
  "matches_sets re [] nonTemplated = True"
| "matches_sets re (matchers # matcherSets) nonTemplated =
     (if \<not> matches_matchers re matchers nonTemplated then False
      else matches_sets re matcherSets nonTemplated)"

definition matches ::
  "(string \<Rightarrow> NodeType list option) \<Rightarrow> (string \<Rightarrow> string \<Rightarrow> bool) \<Rightarrow>
   Matcher list list \<Rightarrow> labels \<Rightarrow> bool" where
  "matches tparse re matcherSets l =
     (if length matcherSets = 0 then True
      else matches_sets re matcherSets (nonTemplatedLabels tparse l))"

text \<open>
  The inner loop of \<^verbatim>\<open>filterRules\<close>, over the rules of one group. The slice is compacted
  in place: \<open>i\<close> is the index the \<^verbatim>\<open>range\<close> reads, \<open>ruleCount\<close> the index the next
  retained rule is written to, and the result is \<^verbatim>\<open>g.Rules[:ruleCount]\<close>.
\<close>

function filterRules_rules ::
  "(string \<Rightarrow> NodeType list option) \<Rightarrow> (string \<Rightarrow> string \<Rightarrow> bool) \<Rightarrow> Matcher list list \<Rightarrow>
   ('r, 'a) rule list \<Rightarrow> nat \<Rightarrow> nat \<Rightarrow> ('r, 'a) rule list" where
  "filterRules_rules tparse re matcherSets rules i ruleCount =
     (if i < length rules then
        (let r = rules ! i in
         if matches tparse re matcherSets (GetLabels r)
         then filterRules_rules tparse re matcherSets (rules[ruleCount := r]) (Suc i) (Suc ruleCount)
         else filterRules_rules tparse re matcherSets rules (Suc i) ruleCount)
      else take ruleCount rules)"
  by pat_completeness auto
termination
  by (relation "measure (\<lambda>(tparse, re, matcherSets, rules, i, ruleCount). length rules - i)") auto

text \<open>
  The outer loop, over the groups. \<open>g\<close> is a pointer: the assignment to \<^verbatim>\<open>g.Rules\<close>
  changes the group at index \<open>i\<close>, and a group that keeps a rule is written to index
  \<open>groupCount\<close>. The result is \<^verbatim>\<open>ruleGroups[:groupCount]\<close>.
\<close>

function filterRules_groups ::
  "(string \<Rightarrow> NodeType list option) \<Rightarrow> (string \<Rightarrow> string \<Rightarrow> bool) \<Rightarrow> Matcher list list \<Rightarrow>
   ('r, 'a, 'z) RuleGroup_scheme list \<Rightarrow> nat \<Rightarrow> nat \<Rightarrow> ('r, 'a, 'z) RuleGroup_scheme list" where
  "filterRules_groups tparse re matcherSets ruleGroups i groupCount =
     (if i < length ruleGroups then
        (let g = (ruleGroups ! i)
                   \<lparr>Rules := filterRules_rules tparse re matcherSets (Rules (ruleGroups ! i)) 0 0\<rparr>;
             ruleGroups' = ruleGroups[i := g]
         in if length (Rules g) \<noteq> 0
            then filterRules_groups tparse re matcherSets (ruleGroups'[groupCount := g])
                   (Suc i) (Suc groupCount)
            else filterRules_groups tparse re matcherSets ruleGroups' (Suc i) groupCount)
      else take groupCount ruleGroups)"
  by pat_completeness auto
termination
  by (relation "measure (\<lambda>(tparse, re, matcherSets, ruleGroups, i, groupCount).
        length ruleGroups - i)") auto

definition filterRules ::
  "(string \<Rightarrow> NodeType list option) \<Rightarrow> (string \<Rightarrow> string \<Rightarrow> bool) \<Rightarrow>
   ('r, 'a, 'z) RuleGroup_scheme list \<Rightarrow> Matcher list list \<Rightarrow>
   ('r, 'a, 'z) RuleGroup_scheme list" where
  "filterRules tparse re ruleGroups matcherSets =
     (if length matcherSets = 0 then ruleGroups
      else filterRules_groups tparse re matcherSets ruleGroups 0 0)"

subsection \<open>dedupGroups\<close>

text \<open>
  The loop of \<^verbatim>\<open>dedupGroups\<close>. \<open>seenGroups\<close> maps a name to the group first seen under
  it, which is an element of \<open>uniqueGroups\<close>: the pointer is modelled by the index of that
  element, and the append to \<^verbatim>\<open>existingGroup.Rules\<close> updates the element there.
\<close>

fun dedupGroups_loop ::
  "(string \<rightharpoonup> nat) \<Rightarrow> ('r, 'a, 'z) RuleGroup_scheme list \<Rightarrow>
   ('r, 'a, 'z) RuleGroup_scheme list \<Rightarrow> ('r, 'a, 'z) RuleGroup_scheme list" where
  "dedupGroups_loop seenGroups uniqueGroups [] = uniqueGroups"
| "dedupGroups_loop seenGroups uniqueGroups (g # groups) =
     (case seenGroups (GName g) of
        Some existingGroup \<Rightarrow>
          dedupGroups_loop seenGroups
            (uniqueGroups[existingGroup :=
               (uniqueGroups ! existingGroup)
                 \<lparr>Rules := Rules (uniqueGroups ! existingGroup) @ Rules g\<rparr>])
            groups
      | None \<Rightarrow>
          dedupGroups_loop (seenGroups(GName g \<mapsto> length uniqueGroups))
            (uniqueGroups @ [g]) groups)"

definition dedupGroups ::
  "('r, 'a, 'z) RuleGroup_scheme list \<Rightarrow> ('r, 'a, 'z) RuleGroup_scheme list" where
  "dedupGroups groups =
     (if length groups = 0 then []
      else dedupGroups_loop Map.empty [] groups)"

text \<open>The names of a list in the order in which each is first seen.\<close>

fun first_seen :: "'k list \<Rightarrow> 'k list" where
  "first_seen [] = []"
| "first_seen (x # xs) = x # removeAll x (first_seen xs)"

text \<open>
  The invariant of the loop of \<^verbatim>\<open>dedupGroups\<close>: \<open>seenGroups\<close> holds exactly the names
  of the groups of \<open>uniqueGroups\<close>, each with the index of its group.
\<close>

definition seen_inv :: "(string \<rightharpoonup> nat) \<Rightarrow> ('r, 'a, 'z) RuleGroup_scheme list \<Rightarrow> bool" where
  "seen_inv seenGroups uniqueGroups \<longleftrightarrow>
     (\<forall>n i. seenGroups n = Some i \<longleftrightarrow> (i < length uniqueGroups \<and> GName (uniqueGroups ! i) = n))"

subsection \<open>rulesServer and GRPCClient.Rules\<close>

text \<open>
  Errors as values: \<^verbatim>\<open>errors.New(msg)\<close> and \<^verbatim>\<open>errors.Wrap(err, msg)\<close>; the errors of the
  collaborators (the proxy, the selector parser) are values of the same type.
\<close>

datatype error = New string | Wrap error string

text \<open>
  \<^verbatim>\<open>rulespb.RulesResponse\<close>, a oneof of a group and a warning, with its getters: a getter
  of the variant that is not set returns the zero value (the empty string, nil).
\<close>

datatype ('r, 'a) RulesResponse =
    Group "('r, 'a) RuleGroup"
  | Warning string
  | NoResponse

fun GetWarning :: "('r, 'a) RulesResponse \<Rightarrow> string" where
  "GetWarning (Warning w) = w"
| "GetWarning (Group g) = []"
| "GetWarning NoResponse = []"

fun GetGroup :: "('r, 'a) RulesResponse \<Rightarrow> ('r, 'a) RuleGroup option" where
  "GetGroup (Group g) = Some g"
| "GetGroup (Warning w) = None"
| "GetGroup NoResponse = None"

text \<open>
  \<^verbatim>\<open>context.Context\<close>, as far as a delivery can observe it: whether the context is done
  when the call is made.
\<close>

datatype Context = Active | Done

record ('r, 'a) rulesServer =
  ctx :: Context
  warnings :: "error list"
  groups :: "('r, 'a) RuleGroup list"

text \<open>
  \<^verbatim>\<open>rulesServer.Send\<close>: the error it returns and the state it leaves. The mutex makes
  each call atomic, so concurrent deliveries are a sequence of calls.
\<close>

definition Send ::
  "('r, 'a) rulesServer \<Rightarrow> ('r, 'a) RulesResponse \<Rightarrow> error option \<times> ('r, 'a) rulesServer" where
  "Send srv res =
     (if GetWarning res \<noteq> [] then
        (None, srv\<lparr>warnings := warnings srv @ [New (GetWarning res)]\<rparr>)
      else
        (case GetGroup res of
           None \<Rightarrow> (Some (New ''no group''), srv)
         | Some g \<Rightarrow> (None, srv\<lparr>groups := groups srv @ [g]\<rparr>)))"

text \<open>
  The fan-out collaborator \<^verbatim>\<open>rr.proxy.Rules(req, resp)\<close> reaches the sink through
  \<^verbatim>\<open>Send\<close> only. A proxy is therefore given by the messages it delivers, in the order
  in which the mutex admits them, and the error it returns; both may depend on the
  request and on the context. \<open>deliver\<close> is the sink after those deliveries.
\<close>

fun deliver ::
  "('r, 'a) rulesServer \<Rightarrow> ('r, 'a) RulesResponse list \<Rightarrow> ('r, 'a) rulesServer" where
  "deliver srv [] = srv"
| "deliver srv (res # rest) = deliver (snd (Send srv res)) rest"

text \<open>
  The loop over \<^verbatim>\<open>req.MatcherString\<close>: \<open>parse\<close> is \<^verbatim>\<open>parser.ParseMetricSelector\<close>, and
  the first selector it refuses ends the loop with the wrapped error.
\<close>

fun parseSelectors ::
  "(string \<Rightarrow> error + Matcher list) \<Rightarrow> string list \<Rightarrow> error + Matcher list list" where
  "parseSelectors parse [] = Inr []"
| "parseSelectors parse (s # ss) =
     (case parse s of
        Inl err \<Rightarrow> Inl (Wrap err ''parser ParseMetricSelector'')
      | Inr matchers \<Rightarrow>
          (case parseSelectors parse ss of
             Inl err \<Rightarrow> Inl err
           | Inr matcherSets \<Rightarrow> Inr (matchers # matcherSets)))"

text \<open>
  \<^verbatim>\<open>GRPCClient.Rules\<close>. The request is its \<^verbatim>\<open>MatcherString\<close>; the result is the triple the
  Go function returns: the groups (\<open>None\<close> for the nil pointer), the warnings and the
  error. The tracing span is left out.
\<close>

definition GRPCClient_Rules ::
  "(string list \<Rightarrow> Context \<Rightarrow> ('r, 'a) RulesResponse list \<times> error option) \<Rightarrow> string set \<Rightarrow>
   (string \<Rightarrow> error + Matcher list) \<Rightarrow>
   (string \<Rightarrow> NodeType list option) \<Rightarrow> (string \<Rightarrow> string \<Rightarrow> bool) \<Rightarrow>
   (('r, 'a) rule \<Rightarrow> string) \<Rightarrow> (labels \<times> 'r \<Rightarrow> labels \<times> 'r \<Rightarrow> int) \<Rightarrow>
   (labels \<times> 'a \<Rightarrow> labels \<times> 'a \<Rightarrow> int) \<Rightarrow>
   Context \<Rightarrow> string list \<Rightarrow>
   ('r, 'a) RuleGroup list option \<times> error list \<times> error option" where
  "GRPCClient_Rules proxy replicaLabels parse tparse re String cmpR cmpA callCtx MatcherString =
     (let resp = deliver \<lparr>ctx = callCtx, warnings = [], groups = []\<rparr>
                   (fst (proxy MatcherString callCtx))
      in case snd (proxy MatcherString callCtx) of
           Some err \<Rightarrow> (None, [], Some (Wrap err ''proxy Rules''))
         | None \<Rightarrow>
             (case parseSelectors parse MatcherString of
                Inl err \<Rightarrow> (None, [], Some err)
              | Inr matcherSets \<Rightarrow>
                  (let filtered = filterRules tparse re (groups resp) matcherSets;
                       merged = dedupGroups filtered;
                       deduped = map (\<lambda>g. g\<lparr>Rules := dedupRules String cmpR cmpA (Rules g) replicaLabels\<rparr>)
                                   merged
                   in (Some deduped, warnings resp, None))))"

section \<open>Properties\<close>

declare filterRules_rules.simps [simp del]
declare filterRules_groups.simps [simp del]

subsection \<open>dedupRules\<close>

lemma normalizeRule_eq:
  "normalizeRule r L = SetLabels r (sort_key Name (filter (\<lambda>l. Name l \<notin> L) (GetLabels r)))"
  by (cases r) (simp_all add: normalizeRule_def removeReplicaLabels_def)

lemma normalizeRule_idem: "normalizeRule (normalizeRule r L) L = normalizeRule r L"
proof -
  let ?ls = "sort_key Name (filter (\<lambda>l. Name l \<notin> L) (GetLabels r))"
  have "filter (\<lambda>l. Name l \<notin> L) ?ls = ?ls"
    by (simp add: filter_sort)
  moreover have "sort_key Name ?ls = ?ls"
    by (rule sort_key_id_if_sorted) simp
  ultimately show ?thesis
    by (cases r) (simp_all add: normalizeRule_eq)
qed

text \<open>Every path of the loop body ends in the append of the current rule.\<close>

lemma dedupRules_loop_appends:
  "dedupRules_loop String cmpR cmpA seenRules uniqueRules rules = uniqueRules @ rules"
proof (induction rules arbitrary: seenRules uniqueRules)
  case Nil
  show ?case by simp
next
  case (Cons r rules)
  show ?case
    by (simp add: Cons.IH Let_def split: option.split)
qed

lemma dedupRules_eq_map:
  "dedupRules String cmpR cmpA rules L = map (\<lambda>r. normalizeRule r L) rules"
  by (simp add: dedupRules_def dedupRules_loop_appends)

lemma length_dedupRules: "length (dedupRules String cmpR cmpA rules L) = length rules"
  by (simp add: dedupRules_eq_map)

text \<open>
  C1. A rule that repeats an identity string already seen, and whose comparison with the
  recorded rule reports equal, is to be dropped; two rules that differ in the value of a
  replica label only are to leave one rule. The loop does not do this: the branch of an
  equal comparison falls through to the append that ends the loop body. Here both
  comparisons report equal on every pair, the identity string is any function of the
  rule, and the two alerts differ in the replica label only: both are returned.
\<close>

theorem dedupRules_keeps_equal_duplicate:
  "dedupRules String (\<lambda>x y. 0) (\<lambda>x y. 0)
     [Alert [Label ''alertname'' ''Up'', Label ''replica'' ''0''] a,
      Alert [Label ''alertname'' ''Up'', Label ''replica'' ''1''] a]
     {''replica''} =
   [Alert [Label ''alertname'' ''Up''] a, Alert [Label ''alertname'' ''Up''] a]"
  by (simp add: dedupRules_def normalizeRule_def removeReplicaLabels_def)

text \<open>
  C6. \<^verbatim>\<open>dedupRules\<close> is idempotent: for every rule list and every fixed set of replica
  labels, a second pass over the result of a first pass returns that result.
\<close>

theorem dedupRules_idempotent:
  "dedupRules String cmpR cmpA (dedupRules String cmpR cmpA x L) L =
   dedupRules String cmpR cmpA x L"
  by (simp add: dedupRules_eq_map normalizeRule_idem)

subsection \<open>matches and filterRules\<close>

text \<open>
  The in-place compaction of the rules is a filter: the write index never passes the read
  index, so a write never reaches a rule that is still to be read.
\<close>

lemma filterRules_rules_eq:
  "ruleCount \<le> i \<Longrightarrow>
   filterRules_rules tparse re matcherSets rules i ruleCount =
   take ruleCount rules @ filter (\<lambda>r. matches tparse re matcherSets (GetLabels r)) (drop i rules)"
proof (induction tparse re matcherSets rules i ruleCount rule: filterRules_rules.induct)
  case (1 tparse re matcherSets rules i ruleCount)
  show ?case
  proof (cases "i < length rules")
    case False
    then show ?thesis by (subst filterRules_rules.simps) simp
  next
    case True
    note lt = True
    have dr: "drop i rules = rules ! i # drop (Suc i) rules"
      using lt by (simp add: Cons_nth_drop_Suc)
    show ?thesis
    proof (cases "matches tparse re matcherSets (GetLabels (rules ! i))")
      case True
      have "filterRules_rules tparse re matcherSets rules i ruleCount =
            filterRules_rules tparse re matcherSets (rules[ruleCount := rules ! i])
              (Suc i) (Suc ruleCount)"
        using lt True by (subst filterRules_rules.simps) simp
      also have "\<dots> = take (Suc ruleCount) (rules[ruleCount := rules ! i]) @
           filter (\<lambda>r. matches tparse re matcherSets (GetLabels r))
             (drop (Suc i) (rules[ruleCount := rules ! i]))"
        using "1.IH"(1)[OF lt refl True] "1.prems" by simp
      also have "take (Suc ruleCount) (rules[ruleCount := rules ! i]) =
           take ruleCount rules @ [rules ! i]"
        using lt "1.prems" by (simp add: take_Suc_conv_app_nth)
      also have "drop (Suc i) (rules[ruleCount := rules ! i]) = drop (Suc i) rules"
        using "1.prems" by simp
      finally show ?thesis using True dr by simp
    next
      case False
      have "filterRules_rules tparse re matcherSets rules i ruleCount =
            filterRules_rules tparse re matcherSets rules (Suc i) ruleCount"
        using lt False by (subst filterRules_rules.simps) simp
      also have "\<dots> = take ruleCount rules @
           filter (\<lambda>r. matches tparse re matcherSets (GetLabels r)) (drop (Suc i) rules)"
        using "1.IH"(2)[OF lt refl False] "1.prems" by simp
      finally show ?thesis using False dr by simp
    qed
  qed
qed

lemma filterRules_rules_filter:
  "filterRules_rules tparse re matcherSets rules 0 0 =
   filter (\<lambda>r. matches tparse re matcherSets (GetLabels r)) rules"
  by (simp add: filterRules_rules_eq)

lemma filterRules_groups_eq:
  "groupCount \<le> i \<Longrightarrow>
   filterRules_groups tparse re matcherSets ruleGroups i groupCount =
   take groupCount ruleGroups @
   filter (\<lambda>g. Rules g \<noteq> [])
     (map (\<lambda>g. g\<lparr>Rules := filter (\<lambda>r. matches tparse re matcherSets (GetLabels r)) (Rules g)\<rparr>)
        (drop i ruleGroups))"
proof (induction tparse re matcherSets ruleGroups i groupCount rule: filterRules_groups.induct)
  case (1 tparse re matcherSets ruleGroups i groupCount)
  let ?F = "\<lambda>g. g\<lparr>Rules := filter (\<lambda>r. matches tparse re matcherSets (GetLabels r)) (Rules g)\<rparr>"
  let ?g = "?F (ruleGroups ! i)"
  let ?gs' = "ruleGroups[i := ?g]"
  show ?case
  proof (cases "i < length ruleGroups")
    case False
    then show ?thesis by (subst filterRules_groups.simps) simp
  next
    case True
    note lt = True
    have dr: "drop i ruleGroups = ruleGroups ! i # drop (Suc i) ruleGroups"
      using lt by (simp add: Cons_nth_drop_Suc)
    have g_eq: "(ruleGroups ! i)
        \<lparr>Rules := filterRules_rules tparse re matcherSets (Rules (ruleGroups ! i)) 0 0\<rparr> = ?g"
      by (simp add: filterRules_rules_filter)
    show ?thesis
    proof (cases "Rules ?g \<noteq> []")
      case True
      have "filterRules_groups tparse re matcherSets ruleGroups i groupCount =
            filterRules_groups tparse re matcherSets (?gs'[groupCount := ?g])
              (Suc i) (Suc groupCount)"
        using lt True
        by (subst filterRules_groups.simps) (simp add: filterRules_rules_filter Let_def)
      also have "\<dots> = take (Suc groupCount) (?gs'[groupCount := ?g]) @
           filter (\<lambda>g. Rules g \<noteq> []) (map ?F (drop (Suc i) (?gs'[groupCount := ?g])))"
        using "1.IH"(1)[OF lt g_eq[symmetric] refl] True "1.prems"
        by (simp add: filterRules_rules_filter)
      also have "take (Suc groupCount) (?gs'[groupCount := ?g]) =
           take groupCount ruleGroups @ [?g]"
        using lt "1.prems" by (simp add: take_Suc_conv_app_nth)
      also have "drop (Suc i) (?gs'[groupCount := ?g]) = drop (Suc i) ruleGroups"
        using "1.prems" by simp
      finally show ?thesis using True dr by simp
    next
      case False
      have "filterRules_groups tparse re matcherSets ruleGroups i groupCount =
            filterRules_groups tparse re matcherSets ?gs' (Suc i) groupCount"
        using lt False
        by (subst filterRules_groups.simps) (simp add: filterRules_rules_filter Let_def)
      also have "\<dots> = take groupCount ?gs' @
           filter (\<lambda>g. Rules g \<noteq> []) (map ?F (drop (Suc i) ?gs'))"
        using "1.IH"(2)[OF lt g_eq[symmetric] refl] False "1.prems"
        by (simp add: filterRules_rules_filter)
      also have "take groupCount ?gs' = take groupCount ruleGroups"
        using "1.prems" by simp
      also have "drop (Suc i) ?gs' = drop (Suc i) ruleGroups"
        by simp
      finally show ?thesis using False dr by simp
    qed
  qed
qed

lemma filterRules_eq:
  "matcherSets \<noteq> [] \<Longrightarrow>
   filterRules tparse re ruleGroups matcherSets =
   filter (\<lambda>g. Rules g \<noteq> [])
     (map (\<lambda>g. g\<lparr>Rules := filter (\<lambda>r. matches tparse re matcherSets (GetLabels r)) (Rules g)\<rparr>)
        ruleGroups)"
  by (simp add: filterRules_def filterRules_groups_eq)









lemma filterRules_count_le:
  "length (concat (map Rules (filter (\<lambda>g. Rules g \<noteq> [])
      (map (\<lambda>g. g\<lparr>Rules := filter P (Rules g)\<rparr>) gs)))) \<le> length (concat (map Rules gs))"
proof (induction gs)
  case Nil
  show ?case by simp
next
  case (Cons g gs)
  have "length (filter P (Rules g)) \<le> length (Rules g)" by simp
  with Cons.IH show ?case by (simp add: add_mono)
qed

text \<open>
  C8. For a non-empty collection of matcher sets, \<^verbatim>\<open>filterRules\<close> never increases the
  number of rules; no group of the output is without rules; and the output groups are, in
  the order of the input, input groups whose rules have been cut down to a subsequence
  of what they were (nothing else of a group changes).
\<close>

theorem filterRules_shrinks:
  assumes "matcherSets \<noteq> []"
  shows "(\<forall>g\<in>set (filterRules tparse re ruleGroups matcherSets). Rules g \<noteq> []) \<and>
         (\<exists>kept. subseq kept ruleGroups \<and>
            list_all2 (\<lambda>g' g. subseq (Rules g') (Rules g) \<and> g' = g\<lparr>Rules := Rules g'\<rparr>)
              (filterRules tparse re ruleGroups matcherSets) kept) \<and>
         length (concat (map Rules (filterRules tparse re ruleGroups matcherSets))) \<le>
           length (concat (map Rules ruleGroups))"
proof -
  let ?P = "\<lambda>r. matches tparse re matcherSets (GetLabels r)"
  let ?F = "\<lambda>g. g\<lparr>Rules := filter ?P (Rules g)\<rparr>"
  let ?kept = "filter (\<lambda>g. Rules (?F g) \<noteq> []) ruleGroups"
  have eq: "filterRules tparse re ruleGroups matcherSets =
      filter (\<lambda>g. Rules g \<noteq> []) (map ?F ruleGroups)"
    using assms by (rule filterRules_eq)
  have eq': "filterRules tparse re ruleGroups matcherSets = map ?F ?kept"
    unfolding eq by (simp add: filter_map comp_def)
  have 1: "\<forall>g\<in>set (filterRules tparse re ruleGroups matcherSets). Rules g \<noteq> []"
    unfolding eq by simp
  have "subseq ?kept ruleGroups" by simp
  moreover have "list_all2 (\<lambda>g' g. subseq (Rules g') (Rules g) \<and> g' = g\<lparr>Rules := Rules g'\<rparr>)
      (map ?F ?kept) ?kept"
    by (simp add: list_all2_map1 list_all2_same)
  ultimately have 2: "\<exists>kept. subseq kept ruleGroups \<and>
            list_all2 (\<lambda>g' g. subseq (Rules g') (Rules g) \<and> g' = g\<lparr>Rules := Rules g'\<rparr>)
              (filterRules tparse re ruleGroups matcherSets) kept"
    unfolding eq' by blast
  have 3: "length (concat (map Rules (filterRules tparse re ruleGroups matcherSets))) \<le>
           length (concat (map Rules ruleGroups))"
    unfolding eq by (rule filterRules_count_le)
  from 1 2 3 show ?thesis by blast
qed

text \<open>
  Of three groups the first keeps no rule and is dropped; the second and the third come
  out in their order, the second with two of its three rules.
\<close>

theorem filterRules_shrinks_witness:
  "[[Matcher MatchNotEqual ''job'' ''b'']] \<noteq> [] \<and>
   filterRules (\<lambda>v. Some [NodeText]) (\<lambda>p s. False)
     [\<lparr>GName = ''g1'', Rules = [Alert [Label ''job'' ''b''] ()]\<rparr>,
      \<lparr>GName = ''g2'', Rules = [Alert [Label ''job'' ''b''] (), Alert [Label ''job'' ''a''] (),
                               Recording [] ()]\<rparr>,
      \<lparr>GName = ''g3'', Rules = [Recording [Label ''job'' ''c''] ()]\<rparr>]
     [[Matcher MatchNotEqual ''job'' ''b'']] =
   [\<lparr>GName = ''g2'', Rules = [Alert [Label ''job'' ''a''] (), Recording [] ()]\<rparr>,
    \<lparr>GName = ''g3'', Rules = [Recording [Label ''job'' ''c''] ()]\<rparr>]"
  using filterRules_shrinks
    [where matcherSets = "[[Matcher MatchNotEqual ''job'' ''b'']]"
       and tparse = "\<lambda>v. Some [NodeText]" and re = "\<lambda>p s. False"
       and ruleGroups =
         "[\<lparr>GName = ''g1'', Rules = [Alert [Label ''job'' ''b''] ()]\<rparr>,
           \<lparr>GName = ''g2'', Rules = [Alert [Label ''job'' ''b''] (), Alert [Label ''job'' ''a''] (),
                                    Recording [] ()]\<rparr>,
           \<lparr>GName = ''g3'', Rules = [Recording [Label ''job'' ''c''] ()]\<rparr>]"]
  by (simp add: filterRules_eq matches_def isNonTemplated_def)

text \<open>
  C9. With an empty collection of matcher sets \<^verbatim>\<open>filterRules\<close> is the identity: every
  group and every rule comes out unchanged, in the same order.
\<close>

theorem filterRules_empty_matcherSets:
  "filterRules tparse re ruleGroups [] = ruleGroups"
  by (simp add: filterRules_def)

subsection \<open>dedupGroups\<close>

lemma set_first_seen: "set (first_seen xs) = set xs"
  by (induction xs) auto

lemma distinct_first_seen: "distinct (first_seen xs)"
  by (induction xs) (auto simp: distinct_removeAll)

lemma removeAll_first_seen: "removeAll x (first_seen xs) = first_seen (removeAll x xs)"
proof (induction xs)
  case Nil
  show ?case by simp
next
  case (Cons y ys)
  have comm: "removeAll x (removeAll y zs) = removeAll y (removeAll x zs)" for zs :: "'a list"
    by (induction zs) auto
  have idem: "removeAll x (removeAll x zs) = removeAll x zs" for zs :: "'a list"
    by (induction zs) auto
  show ?case
  proof (cases "x = y")
    case True
    have "removeAll x (first_seen (y # ys)) = removeAll x (removeAll x (first_seen ys))"
      using True by simp
    also have "\<dots> = removeAll x (first_seen ys)"
      by (rule idem)
    also have "\<dots> = first_seen (removeAll x ys)"
      by (rule Cons.IH)
    also have "\<dots> = first_seen (removeAll x (y # ys))"
      using True by simp
    finally show ?thesis .
  next
    case False
    have "removeAll x (first_seen (y # ys)) = y # removeAll y (removeAll x (first_seen ys))"
      using False by (simp add: comm)
    also have "\<dots> = y # removeAll y (first_seen (removeAll x ys))"
      by (simp only: Cons.IH)
    finally show ?thesis using False by simp
  qed
qed

lemma seen_inv_None:
  assumes "seen_inv seen unique" "seen n = None"
  shows "n \<notin> GName ` set unique"
proof
  assume "n \<in> GName ` set unique"
  then obtain i where "i < length unique" "GName (unique ! i) = n"
    by (auto simp: in_set_conv_nth)
  with assms(1) have "seen n = Some i" by (simp add: seen_inv_def)
  with assms(2) show False by simp
qed

lemma seen_inv_Some:
  assumes "seen_inv seen unique" "seen n = Some i"
  shows "i < length unique" "GName (unique ! i) = n"
    "\<And>j. j < length unique \<Longrightarrow> GName (unique ! j) = n \<Longrightarrow> j = i"
proof -
  show "i < length unique" "GName (unique ! i) = n"
    using assms by (simp_all add: seen_inv_def)
  fix j assume "j < length unique" "GName (unique ! j) = n"
  with assms(1) have "seen n = Some j" by (simp add: seen_inv_def)
  with assms(2) show "j = i" by simp
qed

lemma seen_inv_append:
  assumes "seen_inv seen unique" "seen (GName g) = None"
  shows "seen_inv (seen(GName g \<mapsto> length unique)) (unique @ [g])"
proof -
  have notin: "GName g \<notin> GName ` set unique"
    using assms by (rule seen_inv_None)
  show ?thesis
    unfolding seen_inv_def
  proof (intro allI)
    fix n i
    show "((seen(GName g \<mapsto> length unique)) n = Some i) =
          (i < length (unique @ [g]) \<and> GName ((unique @ [g]) ! i) = n)"
    proof (cases "n = GName g")
      case True
      note n = True
      show ?thesis
      proof (cases "i < length unique")
        case True
        then have "unique ! i \<in> set unique" by simp
        with notin have "GName (unique ! i) \<noteq> GName g" by (metis imageI)
        with True n show ?thesis
          by (simp add: nth_append)
      next
        case False
        with n show ?thesis
          by (auto simp: nth_append)
      qed
    next
      case False
      with assms(1) show ?thesis
        by (auto simp: seen_inv_def nth_append)
    qed
  qed
qed

lemma seen_inv_update:
  assumes "seen_inv seen unique" "GName g' = GName (unique ! i)"
  shows "seen_inv seen (unique[i := g'])"
  using assms unfolding seen_inv_def
  by (metis length_list_update nth_list_update_eq nth_list_update_neq)

text \<open>
  What the loop returns from a state that satisfies the invariant: the groups already
  in \<open>uniqueGroups\<close>, each with the rules of the later groups of its name appended in
  order, followed by one group for each name that is new, in the order in which the names
  are first seen.
\<close>

lemma dedupGroups_loop_spec:
  assumes "seen_inv seen unique"
  shows "\<exists>fresh.
      dedupGroups_loop seen unique gs =
        map (\<lambda>u. u\<lparr>Rules := Rules u @ concat (map Rules (filter (\<lambda>h. GName h = GName u) gs))\<rparr>)
          unique @ fresh \<and>
      map GName fresh = first_seen (filter (\<lambda>n. n \<notin> GName ` set unique) (map GName gs)) \<and>
      (\<forall>g\<in>set fresh. Rules g = concat (map Rules (filter (\<lambda>h. GName h = GName g) gs)))"
  using assms
proof (induction gs arbitrary: seen unique)
  case Nil
  show ?case by (simp add: map_idI)
next
  case (Cons g gs)
  let ?absorb = "\<lambda>gs u. u\<lparr>Rules := Rules u @ concat (map Rules (filter (\<lambda>h. GName h = GName u) gs))\<rparr>"
  show ?case
  proof (cases "seen (GName g)")
    case None
    have notin: "GName g \<notin> GName ` set unique"
      using Cons.prems None by (rule seen_inv_None)
    have inv': "seen_inv (seen(GName g \<mapsto> length unique)) (unique @ [g])"
      using Cons.prems None by (rule seen_inv_append)
    from Cons.IH[OF inv'] obtain fresh where
      loop: "dedupGroups_loop (seen(GName g \<mapsto> length unique)) (unique @ [g]) gs =
             map (?absorb gs) (unique @ [g]) @ fresh" and
      names: "map GName fresh =
              first_seen (filter (\<lambda>n. n \<notin> GName ` set (unique @ [g])) (map GName gs))" and
      rules: "\<forall>g'\<in>set fresh. Rules g' = concat (map Rules (filter (\<lambda>h. GName h = GName g') gs))"
      by blast
    have old: "map (?absorb (g # gs)) unique = map (?absorb gs) unique"
      using notin by (intro map_cong refl) auto
    have filt: "filter (\<lambda>n. n \<notin> GName ` set (unique @ [g])) (map GName gs) =
          removeAll (GName g) (filter (\<lambda>n. n \<notin> GName ` set unique) (map GName gs))"
      by (induction gs) auto
    have fresh_ne: "GName g' \<noteq> GName g" if "g' \<in> set fresh" for g'
    proof -
      from that have "GName g' \<in> set (map GName fresh)" by simp
      then show ?thesis
        unfolding names set_first_seen by auto
    qed
    let ?fresh = "?absorb gs g # fresh"
    have 1: "dedupGroups_loop seen unique (g # gs) = map (?absorb (g # gs)) unique @ ?fresh"
      using None loop old by simp
    have "map GName ?fresh =
          GName g # first_seen (removeAll (GName g)
            (filter (\<lambda>n. n \<notin> GName ` set unique) (map GName gs)))"
      unfolding list.map names filt by simp
    also have "\<dots> =
          first_seen (GName g # filter (\<lambda>n. n \<notin> GName ` set unique) (map GName gs))"
      by (simp add: removeAll_first_seen)
    finally have 2: "map GName ?fresh =
          first_seen (filter (\<lambda>n. n \<notin> GName ` set unique) (map GName (g # gs)))"
      using notin by simp
    have 3: "\<forall>g'\<in>set ?fresh.
          Rules g' = concat (map Rules (filter (\<lambda>h. GName h = GName g') (g # gs)))"
      using rules fresh_ne fresh_ne[symmetric] by auto
    from 1 2 3 show ?thesis by blast
  next
    case (Some i)
    note inv = Cons.prems
    have i: "i < length unique" and ni: "GName (unique ! i) = GName g"
      using seen_inv_Some(1,2)[OF inv Some] by simp_all
    have uniq: "j = i" if "j < length unique" "GName (unique ! j) = GName g" for j
      using seen_inv_Some(3)[OF inv Some] that by blast
    let ?e = "(unique ! i)\<lparr>Rules := Rules (unique ! i) @ Rules g\<rparr>"
    let ?unique' = "unique[i := ?e]"
    have inv': "seen_inv seen ?unique'"
      using inv by (rule seen_inv_update) simp
    have names': "GName ` set ?unique' = GName ` set unique"
    proof -
      have "map GName ?unique' = map GName unique"
        using i by (simp add: map_update list_update_same_conv)
      then have "set (map GName ?unique') = set (map GName unique)" by simp
      then show ?thesis by simp
    qed
    from Cons.IH[OF inv'] obtain fresh where
      loop: "dedupGroups_loop seen ?unique' gs = map (?absorb gs) ?unique' @ fresh" and
      names: "map GName fresh =
              first_seen (filter (\<lambda>n. n \<notin> GName ` set ?unique') (map GName gs))" and
      rules: "\<forall>g'\<in>set fresh. Rules g' = concat (map Rules (filter (\<lambda>h. GName h = GName g') gs))"
      by blast
    have old: "map (?absorb gs) ?unique' = map (?absorb (g # gs)) unique"
    proof (rule nth_equalityI)
      show "length (map (?absorb gs) ?unique') = length (map (?absorb (g # gs)) unique)"
        by simp
    next
      fix j assume "j < length (map (?absorb gs) ?unique')"
      then have j: "j < length unique" by simp
      show "map (?absorb gs) ?unique' ! j = map (?absorb (g # gs)) unique ! j"
      proof (cases "j = i")
        case True
        then show ?thesis using i ni by simp
      next
        case False
        with uniq j have "GName (unique ! j) \<noteq> GName g" by blast
        then show ?thesis using j False by auto
      qed
    qed
    have in_names: "GName g \<in> GName ` set unique"
      using i ni by (metis imageI nth_mem)
    have fresh_ne: "GName g' \<noteq> GName g" if "g' \<in> set fresh" for g'
    proof -
      from that have "GName g' \<in> set (map GName fresh)" by simp
      then have "GName g' \<notin> GName ` set unique"
        unfolding names set_first_seen names' by simp
      with in_names show ?thesis by metis
    qed
    have 1: "dedupGroups_loop seen unique (g # gs) = map (?absorb (g # gs)) unique @ fresh"
      using Some loop old by simp
    have 2: "map GName fresh =
          first_seen (filter (\<lambda>n. n \<notin> GName ` set unique) (map GName (g # gs)))"
      using names in_names by (simp add: names')
    have 3: "\<forall>g'\<in>set fresh.
          Rules g' = concat (map Rules (filter (\<lambda>h. GName h = GName g') (g # gs)))"
      using rules fresh_ne fresh_ne[symmetric] by auto
    from 1 2 3 show ?thesis by blast
  qed
qed

lemma dedupGroups_spec:
  "map GName (dedupGroups gs) = first_seen (map GName gs) \<and>
   (\<forall>g\<in>set (dedupGroups gs). Rules g = concat (map Rules (filter (\<lambda>h. GName h = GName g) gs)))"
proof (cases gs)
  case Nil
  then show ?thesis by (simp add: dedupGroups_def)
next
  case (Cons a list)
  have "seen_inv Map.empty ([] :: ('a, 'b, 'c) RuleGroup_scheme list)"
    by (simp add: seen_inv_def)
  from dedupGroups_loop_spec[OF this, of gs] Cons show ?thesis
    by (auto simp: dedupGroups_def)
qed

text \<open>
  C7. \<^verbatim>\<open>dedupGroups\<close> returns one group for each distinct name, in the order in which
  the names are first seen, and the rules of each output group are the concatenation, in
  the order of the input, of the rules of all input groups of that name: every rule of
  the input is kept, duplicates included.
\<close>

theorem dedupGroups_merges_by_name:
  "map GName (dedupGroups gs) = first_seen (map GName gs) \<and>
   distinct (map GName (dedupGroups gs)) \<and>
   (\<forall>g\<in>set (dedupGroups gs).
      Rules g = concat (map Rules (filter (\<lambda>h. GName h = GName g) gs)))"
  using dedupGroups_spec[of gs] by (simp add: distinct_first_seen)

text \<open>
  Group \<open>g1\<close> comes with one rule from one shard and with two rules from another, one of
  them the rule of the first shard again: the merged group has the three rules.
\<close>

theorem dedupGroups_merges_by_name_witness:
  "dedupGroups
     [\<lparr>GName = ''g1'', Rules = [Alert [Label ''n'' ''1''] ()]\<rparr>,
      \<lparr>GName = ''g2'', Rules = [Recording [] ()]\<rparr>,
      \<lparr>GName = ''g1'', Rules = [Alert [Label ''n'' ''1''] (), Alert [Label ''n'' ''2''] ()]\<rparr>] =
   [\<lparr>GName = ''g1'', Rules = [Alert [Label ''n'' ''1''] (), Alert [Label ''n'' ''1''] (),
                             Alert [Label ''n'' ''2''] ()]\<rparr>,
    \<lparr>GName = ''g2'', Rules = [Recording [] ()]\<rparr>]"
  using dedupGroups_merges_by_name
    [of "[\<lparr>GName = ''g1'', Rules = [Alert [Label ''n'' ''1''] ()]\<rparr>,
          \<lparr>GName = ''g2'', Rules = [Recording [] ()]\<rparr>,
          \<lparr>GName = ''g1'', Rules = [Alert [Label ''n'' ''1''] (), Alert [Label ''n'' ''2''] ()]\<rparr>]"]
  by (simp add: dedupGroups_def)

subsection \<open>rulesServer.Send\<close>

text \<open>
  C2. A delivered group that carries no rules is to be rejected with an error. The sink
  accepts it: the group is appended and \<^verbatim>\<open>Send\<close> returns nil.
\<close>

theorem Send_accepts_empty_group:
  "Send \<lparr>ctx = Active, warnings = [], groups = []\<rparr>
     (Group \<lparr>GName = ''g'', Rules = ([] :: (unit, unit) rule list)\<rparr>) =
   (None, \<lparr>ctx = Active, warnings = [], groups = [\<lparr>GName = ''g'', Rules = []\<rparr>]\<rparr>)"
  by (simp add: Send_def)

text \<open>
  C2, as the code has it. \<^verbatim>\<open>Send\<close> returns an error exactly for a message that carries
  neither a non-empty warning nor a group; the error is \<^verbatim>\<open>no group\<close> and the sink is left
  as it was. A message with a group (and no warning text) is appended to the groups,
  whatever the number of its rules.
\<close>

theorem Send_rejects_no_group:
  "(fst (Send srv res) \<noteq> None \<longleftrightarrow> GetWarning res = [] \<and> GetGroup res = None) \<and>
   (GetWarning res = [] \<and> GetGroup res = None \<longrightarrow> Send srv res = (Some (New ''no group''), srv)) \<and>
   (GetWarning res = [] \<and> GetGroup res = Some g \<longrightarrow>
      Send srv res = (None, srv\<lparr>groups := groups srv @ [g]\<rparr>))"
  by (auto simp: Send_def split: option.splits)

theorem Send_rejects_no_group_witness:
  "GetWarning (NoResponse :: (unit, unit) RulesResponse) = [] \<and>
   GetGroup (NoResponse :: (unit, unit) RulesResponse) = None \<and>
   Send \<lparr>ctx = Active, warnings = [], groups = []\<rparr> (NoResponse :: (unit, unit) RulesResponse) =
     (Some (New ''no group''), \<lparr>ctx = Active, warnings = [], groups = []\<rparr>) \<and>
   Send \<lparr>ctx = Active, warnings = [], groups = []\<rparr>
     (Group \<lparr>GName = ''g'', Rules = ([] :: (unit, unit) rule list)\<rparr>) =
     (None, \<lparr>ctx = Active, warnings = [], groups = [\<lparr>GName = ''g'', Rules = []\<rparr>]\<rparr>)"
  using Send_rejects_no_group
      [where srv = "\<lparr>ctx = Active, warnings = [], groups = []\<rparr>"
         and res = "NoResponse :: (unit, unit) RulesResponse"]
    Send_rejects_no_group
      [where srv = "\<lparr>ctx = Active, warnings = [], groups = []\<rparr>"
         and res = "Group \<lparr>GName = ''g'', Rules = ([] :: (unit, unit) rule list)\<rparr>"
         and g = "\<lparr>GName = ''g'', Rules = ([] :: (unit, unit) rule list)\<rparr>"]
  by (simp add: Send_def)

text \<open>
  C4. A delivery made after the context is done is to be ignored, the accumulated state
  left as it was. The sink appends it: a warning delivered to a sink whose context is
  done is among the warnings afterwards.
\<close>

theorem Send_after_done_accumulates:
  "Send \<lparr>ctx = Done, warnings = [], groups = ([] :: (unit, unit) RuleGroup list)\<rparr>
     (Warning ''late'') =
   (None, \<lparr>ctx = Done, warnings = [New ''late''], groups = []\<rparr>)"
  by (simp add: Send_def)

text \<open>
  C4, as the code has it. \<^verbatim>\<open>Send\<close> does not read the context. A delivery made when the
  context is done is handled as any other: a non-empty warning is appended to the
  warnings and a group to the groups, both with a nil return; a message with neither
  returns the error \<^verbatim>\<open>no group\<close> and leaves the sink as it was. The result is the one of
  the same delivery under a context that is not done.
\<close>

theorem Send_ignores_context:
  assumes "ctx srv = Done"
  shows "(GetWarning res \<noteq> [] \<longrightarrow>
            Send srv res = (None, srv\<lparr>warnings := warnings srv @ [New (GetWarning res)]\<rparr>)) \<and>
         (GetWarning res = [] \<and> GetGroup res = Some g \<longrightarrow>
            Send srv res = (None, srv\<lparr>groups := groups srv @ [g]\<rparr>)) \<and>
         (GetWarning res = [] \<and> GetGroup res = None \<longrightarrow>
            Send srv res = (Some (New ''no group''), srv)) \<and>
         Send srv res =
           (fst (Send (srv\<lparr>ctx := Active\<rparr>) res),
            (snd (Send (srv\<lparr>ctx := Active\<rparr>) res))\<lparr>ctx := Done\<rparr>)"
  using assms by (auto simp: Send_def split: option.splits)

theorem Send_ignores_context_witness:
  "ctx \<lparr>ctx = Done, warnings = [], groups = ([] :: (unit, unit) RuleGroup list)\<rparr> = Done \<and>
   Send \<lparr>ctx = Done, warnings = [], groups = []\<rparr>
     (Group \<lparr>GName = ''g'', Rules = [Alert [] ()]\<rparr>) =
   (None, \<lparr>ctx = Done, warnings = [], groups = [\<lparr>GName = ''g'', Rules = [Alert [] ()]\<rparr>]\<rparr>)"
  using Send_ignores_context
      [where srv = "\<lparr>ctx = Done, warnings = [], groups = ([] :: (unit, unit) RuleGroup list)\<rparr>"
         and res = "Group \<lparr>GName = ''g'', Rules = [Alert [] ()]\<rparr>"
         and g = "\<lparr>GName = ''g'', Rules = [Alert [] ()]\<rparr>"]
  by (simp add: Send_def)

subsection \<open>GRPCClient.Rules\<close>

lemma parseSelectors_first_error:
  "parse s = Inl err \<Longrightarrow> \<forall>x\<in>set pre. \<not> isl (parse x) \<Longrightarrow>
   parseSelectors parse (pre @ s # post) = Inl (Wrap err ''parser ParseMetricSelector'')"
proof (induction pre)
  case Nil
  then show ?case by simp
next
  case (Cons x pre)
  from Cons.prems(2) obtain matchers where "parse x = Inr matchers"
    by (cases "parse x") auto
  with Cons show ?case by simp
qed

lemma first_malformed:
  "\<exists>s\<in>set ss. isl (parse s) \<Longrightarrow>
   \<exists>pre s post. ss = pre @ s # post \<and> (\<forall>x\<in>set pre. \<not> isl (parse x)) \<and> isl (parse s)"
  using split_list_first_prop[of ss "\<lambda>s. isl (parse s)"] by blast

text \<open>
  C3. The selectors are to be compiled before the fan-out collaborator is invoked, so
  that a malformed selector fails the call with the parser's error and the collaborator
  is not invoked. The code invokes the collaborator first: with a malformed selector and
  a collaborator that fails, the error returned is the collaborator's.
\<close>

theorem Rules_proxy_error_before_selectors:
  "GRPCClient_Rules
     (\<lambda>req c. ([Warning ''store down''], Some (New ''unavailable''))) {''replica''}
     (\<lambda>s. if s = ''{'' then Inl (New ''unexpected end of input'') else Inr [])
     (\<lambda>v. Some [NodeText]) (\<lambda>p s. False) (\<lambda>r. []) (\<lambda>x y. 0) (\<lambda>x y. 0) Active [''{''] =
   (None :: (unit, unit) RuleGroup list option, [],
    Some (Wrap (New ''unavailable'') ''proxy Rules'')) \<and>
   isl ((\<lambda>s. if s = ''{'' then Inl (New ''unexpected end of input'')
             else Inr ([] :: Matcher list)) ''{'')"
  by (simp add: GRPCClient_Rules_def)

text \<open>
  C3, as the code has it. The collaborator is invoked first and the selectors are
  compiled after it has returned. For a request with a malformed selector: if the
  collaborator returned an error, the call returns that error, wrapped; if it returned
  none, the call returns the parser's error for the first malformed selector, wrapped.
  In both cases the groups are nil and the warnings are nil, whatever the sink holds.
\<close>

theorem Rules_malformed_selector:
  assumes "\<exists>s\<in>set MatcherString. isl (parse s)"
  shows "case snd (proxy MatcherString callCtx) of
           Some perr \<Rightarrow>
             GRPCClient_Rules proxy replicaLabels parse tparse re String cmpR cmpA
               callCtx MatcherString =
               (None, [], Some (Wrap perr ''proxy Rules''))
         | None \<Rightarrow>
             (\<exists>pre s post err. MatcherString = pre @ s # post \<and>
                (\<forall>x\<in>set pre. \<not> isl (parse x)) \<and> parse s = Inl err \<and>
                GRPCClient_Rules proxy replicaLabels parse tparse re String cmpR cmpA
                  callCtx MatcherString =
                  (None, [], Some (Wrap err ''parser ParseMetricSelector'')))"
proof (cases "snd (proxy MatcherString callCtx)")
  case (Some perr)
  then show ?thesis by (simp add: GRPCClient_Rules_def)
next
  case None
  from first_malformed[OF assms] obtain pre s post where
    split: "MatcherString = pre @ s # post" and ok: "\<forall>x\<in>set pre. \<not> isl (parse x)" and
    bad: "isl (parse s)"
    by blast
  from bad obtain err where err: "parse s = Inl err"
    by (cases "parse s") auto
  have "parseSelectors parse MatcherString = Inl (Wrap err ''parser ParseMetricSelector'')"
    unfolding split using err ok by (rule parseSelectors_first_error)
  then have "GRPCClient_Rules proxy replicaLabels parse tparse re String cmpR cmpA
      callCtx MatcherString =
      (None, [], Some (Wrap err ''parser ParseMetricSelector''))"
    using None by (simp add: GRPCClient_Rules_def)
  with split ok err None show ?thesis by auto
qed

text \<open>
  The collaborator delivers a warning and a group and returns no error; the second
  selector is malformed: the call returns the parser's error and nothing of the sink.
\<close>

theorem Rules_malformed_selector_witness:
  "isl ((\<lambda>s. if s = ''{'' then Inl (New ''unexpected end of input'')
             else Inr ([] :: Matcher list)) ''{'') \<and>
   GRPCClient_Rules
     (\<lambda>req c. ([Warning ''store down'', Group \<lparr>GName = ''g'', Rules = [Alert [] ()]\<rparr>], None))
     {''replica''}
     (\<lambda>s. if s = ''{'' then Inl (New ''unexpected end of input'') else Inr [])
     (\<lambda>v. Some [NodeText]) (\<lambda>p s. False) (\<lambda>r. []) (\<lambda>x y. 0) (\<lambda>x y. 0) Active [''up'', ''{''] =
   (None :: (unit, unit) RuleGroup list option, [],
    Some (Wrap (New ''unexpected end of input'') ''parser ParseMetricSelector''))"
  using Rules_malformed_selector
    [where MatcherString = "[''up'', ''{'']"
       and parse = "\<lambda>s. if s = ''{'' then Inl (New ''unexpected end of input'') else Inr []"
       and proxy = "\<lambda>req c. ([Warning ''store down'',
                                Group \<lparr>GName = ''g'', Rules = [Alert [] ()]\<rparr>], None)"
       and callCtx = Active and replicaLabels = "{''replica''}"
       and tparse = "\<lambda>v. Some [NodeText]" and re = "\<lambda>p s. False" and String = "\<lambda>r. []"
       and cmpR = "\<lambda>x y. 0" and cmpA = "\<lambda>x y. 0"]
  by (simp add: GRPCClient_Rules_def)

text \<open>
  C10. Whenever the fan-out collaborator returns an error, \<^verbatim>\<open>Rules\<close> returns nil groups,
  nil warnings and that error, wrapped: the warnings and the groups that the sink has
  accumulated are not returned.
\<close>

theorem Rules_proxy_error:
  assumes "snd (proxy MatcherString callCtx) = Some err"
  shows "GRPCClient_Rules proxy replicaLabels parse tparse re String cmpR cmpA
           callCtx MatcherString =
           (None, [], Some (Wrap err ''proxy Rules''))"
  using assms by (simp add: GRPCClient_Rules_def)

text \<open>
  The collaborator delivers a warning and a group and then fails: neither is returned,
  though the sink holds both.
\<close>

theorem Rules_proxy_error_witness:
  "snd ((\<lambda>req c. ([Warning ''store down'', Group \<lparr>GName = ''g'', Rules = [Alert [] ()]\<rparr>],
                  Some (New ''unavailable''))) [''up''] Active) = Some (New ''unavailable'') \<and>
   deliver \<lparr>ctx = Active, warnings = [], groups = []\<rparr>
     [Warning ''store down'', Group \<lparr>GName = ''g'', Rules = [Alert [] ()]\<rparr>] =
     \<lparr>ctx = Active, warnings = [New ''store down''],
      groups = [\<lparr>GName = ''g'', Rules = [Alert [] ()]\<rparr>]\<rparr> \<and>
   GRPCClient_Rules
     (\<lambda>req c. ([Warning ''store down'', Group \<lparr>GName = ''g'', Rules = [Alert [] ()]\<rparr>],
                Some (New ''unavailable''))) {''replica''}
     (\<lambda>s. Inr []) (\<lambda>v. Some [NodeText]) (\<lambda>p s. False) (\<lambda>r. []) (\<lambda>x y. 0) (\<lambda>x y. 0)
     Active [''up''] =
   (None :: (unit, unit) RuleGroup list option, [],
    Some (Wrap (New ''unavailable'') ''proxy Rules''))"
  using Rules_proxy_error
    [where MatcherString = "[''up'']" and err = "New ''unavailable''"
       and parse = "\<lambda>s. Inr []"
       and proxy = "\<lambda>req c. ([Warning ''store down'',
                                Group \<lparr>GName = ''g'', Rules = [Alert [] ()]\<rparr>],
                               Some (New ''unavailable''))"
       and callCtx = Active and replicaLabels = "{''replica''}"
       and tparse = "\<lambda>v. Some [NodeText]" and re = "\<lambda>p s. False" and String = "\<lambda>r. []"
       and cmpR = "\<lambda>x y. 0" and cmpA = "\<lambda>x y. 0"]
  by (simp add: Send_def)

end
